theory Spec2Isabelle
  imports Main "HOL-Library.AList"
begin

section \<open>Values\<close>

text \<open>
  The engine of \<^verbatim>\<open>validateObject.ts\<close> walks two kinds of JavaScript values.

  \<^item> The object under validation, its fields and the root object are data: \<open>dval\<close>.
    A data value may be a function (\<open>VFunction\<close>, told apart by a name); the engine
    never calls it.
  \<^item> Rule-sets, rule lists, the rules a builder returns and the violations a rule
    function returns are \<open>jv\<close> values. Their functions are the ones the engine calls,
    always as \<open>f(value, root)\<close> with two data values.

  Numbers are integers (no fractions, no \<open>NaN\<close>); the engine only tests numbers for
  truthiness and compares loop indices with lengths. An object is the list of its own
  properties; for a rule object these are its own enumerable properties in the order
  \<open>for ... in\<close> and \<open>Object.keys\<close> list them. A \<open>jv\<close> value is a finite tree, so a
  builder that keeps returning builders for ever has no representation here.
\<close>

datatype dval =
    VUndefined
  | VNull
  | VBool bool
  | VNum int
  | VStr string
  | VArr "dval list"
  | VObj "(string \<times> dval) list"
  | VFunction string

datatype jv =
    RUndefined
  | RNull
  | RBool bool
  | RNum int
  | RStr string
  | RArr "jv list"
  | RObj "(string \<times> jv) list"
  | RFun "dval \<Rightarrow> dval \<Rightarrow> jv"

text \<open>Truthiness, as \<open>if (x)\<close> and \<open>!x\<close> test it.\<close>

fun truthy :: "jv \<Rightarrow> bool" where
  "truthy RUndefined = False"
| "truthy RNull = False"
| "truthy (RBool b) = b"
| "truthy (RNum n) = (n \<noteq> 0)"
| "truthy (RStr s) = (s \<noteq> [])"
| "truthy (RArr xs) = True"
| "truthy (RObj kvs) = True"
| "truthy (RFun f) = True"

fun truthy_data :: "dval \<Rightarrow> bool" where
  "truthy_data VUndefined = False"
| "truthy_data VNull = False"
| "truthy_data (VBool b) = b"
| "truthy_data (VNum n) = (n \<noteq> 0)"
| "truthy_data (VStr s) = (s \<noteq> [])"
| "truthy_data (VArr xs) = True"
| "truthy_data (VObj kvs) = True"
| "truthy_data (VFunction name) = True"

text \<open>The \<open>typeof\<close> operator; \<open>typeof null\<close> and \<open>typeof []\<close> are both \<open>"object"\<close>.\<close>

fun typeof :: "jv \<Rightarrow> string" where
  "typeof RUndefined = ''undefined''"
| "typeof RNull = ''object''"
| "typeof (RBool b) = ''boolean''"
| "typeof (RNum n) = ''number''"
| "typeof (RStr s) = ''string''"
| "typeof (RArr xs) = ''object''"
| "typeof (RObj kvs) = ''object''"
| "typeof (RFun f) = ''function''"

fun typeof_data :: "dval \<Rightarrow> string" where
  "typeof_data VUndefined = ''undefined''"
| "typeof_data VNull = ''object''"
| "typeof_data (VBool b) = ''boolean''"
| "typeof_data (VNum n) = ''number''"
| "typeof_data (VStr s) = ''string''"
| "typeof_data (VArr xs) = ''object''"
| "typeof_data (VObj kvs) = ''object''"
| "typeof_data (VFunction name) = ''function''"

text \<open>A value whose properties cannot be read: \<open>undefined\<close> or \<open>null\<close>.\<close>

fun nullish :: "jv \<Rightarrow> bool" where
  "nullish RUndefined = True"
| "nullish RNull = True"
| "nullish r = False"

fun nullish_data :: "dval \<Rightarrow> bool" where
  "nullish_data VUndefined = True"
| "nullish_data VNull = True"
| "nullish_data v = False"

fun isArray :: "jv \<Rightarrow> bool" where
  "isArray (RArr xs) = True"
| "isArray r = False"

text \<open>Property keys of array indices are the decimal numerals \<open>"0"\<close>, \<open>"1"\<close>, ...\<close>

fun decimal :: "nat \<Rightarrow> string" where
  "decimal n =
     (if n < 10 then [char_of (48 + n)]
      else decimal (n div 10) @ [char_of (48 + n mod 10)])"

definition index_of_key :: "string \<Rightarrow> nat \<Rightarrow> nat option" where
  "index_of_key key n = find (\<lambda>i. decimal i = key) [0..<n]"

section \<open>Outcomes: thrown errors and the log of calls\<close>

text \<open>
  The three \<open>Error\<close>s the source throws and the \<open>TypeError\<close> the language raises when a
  property of \<open>undefined\<close> or \<open>null\<close> is read. \<open>NeverReturns\<close> is the outcome of a run
  that does not end; the only way into it is a rule list whose \<open>length\<close> is infinite (see
  \<open>rule_slots\<close>).
\<close>

datatype failure =
    RuleSetMissing
  | InvalidRuleType string
  | NotAFunction
  | TypeError
  | NeverReturns

text \<open>
  A call of a user-supplied function is recorded with the place the function was taken
  from and the two arguments it received: slot \<open>index\<close> of the rule list of field \<open>key\<close>,
  the builder given as the rule of field \<open>key\<close>, or the builder given as
  \<open>arrayElementRule\<close> of field \<open>key\<close>, applied to the element at \<open>index\<close>.
\<close>

datatype callee =
    RuleSlot string nat
  | RuleBuilder string
  | ElementRuleBuilder string nat

datatype call = Call callee dval dval

text \<open>
  A computation yields the calls it made, in order, and either the error it threw or its
  value.
\<close>

type_synonym 'a run = "call list \<times> (failure + 'a)"

definition returns :: "'a \<Rightarrow> 'a run" where
  "returns a = ([], Inr a)"

definition throws :: "failure \<Rightarrow> 'a run" where
  "throws e = ([], Inl e)"

definition invoke :: "callee \<Rightarrow> (dval \<Rightarrow> dval \<Rightarrow> jv) \<Rightarrow> dval \<Rightarrow> dval \<Rightarrow> jv run" where
  "invoke site f value root = ([Call site value root], Inr (f value root))"

fun and_then :: "'a run \<Rightarrow> ('a \<Rightarrow> 'b run) \<Rightarrow> 'b run" where
  "and_then (log, Inl e) k = (log, Inl e)"
| "and_then (log, Inr a) k = (case k a of (log', r) \<Rightarrow> (log @ log', r))"

text \<open>
  A \<open>for\<close> loop over a list with a loop-carried state; a throw in the body ends the loop.
\<close>

fun for_each :: "'a list \<Rightarrow> 's \<Rightarrow> ('a \<Rightarrow> 's \<Rightarrow> 's run) \<Rightarrow> 's run" where
  "for_each [] s body = returns s"
| "for_each (x # xs) s body = and_then (body x s) (\<lambda>s'. for_each xs s' body)"

section \<open>The host: what the language provides\<close>

text \<open>
  Two things the engine relies on belong to the JavaScript host and not to the
  repository. They are parameters of the model, so that every theorem holds for every
  host.

  \<^item> \<open>inherited h v key\<close>: what reading \<open>v[key]\<close> finds when \<open>v\<close> has no own property
    \<open>key\<close>: a member of a prototype of \<open>v\<close> (\<open>toString\<close>, \<open>constructor\<close>, \<open>__proto__\<close>,
    the array methods, the members of a class), or a built-in member of a function
    value, if there is one.
  \<^item> \<open>coerced_length h x\<close>: how many loop indices \<open>0, 1, 2, ...\<close> lie below \<open>x\<close> when \<open>x\<close>
    is a string, an array, an object or a function, which \<open>index < x\<close> first converts to
    a number; \<open>Unbounded\<close> when the number is infinite.
\<close>

datatype bound = Finite nat | Unbounded

record host =
  inherited :: "dval \<Rightarrow> string \<Rightarrow> dval option"
  coerced_length :: "jv \<Rightarrow> bound"

section \<open>Reading properties\<close>

text \<open>
  The own properties of a data value: the properties of an object, the elements and the
  length of an array, the characters and the length of a string.
\<close>

fun own_property :: "dval \<Rightarrow> string \<Rightarrow> dval option" where
  "own_property (VObj kvs) key = map_of kvs key"
| "own_property (VArr xs) key =
     (case index_of_key key (length xs) of
        Some i \<Rightarrow> Some (xs ! i)
      | None \<Rightarrow> if key = ''length'' then Some (VNum (int (length xs))) else None)"
| "own_property (VStr s) key =
     (case index_of_key key (length s) of
        Some i \<Rightarrow> Some (VStr [s ! i])
      | None \<Rightarrow> if key = ''length'' then Some (VNum (int (length s))) else None)"
| "own_property v key = None"

text \<open>
  \<open>v[key]\<close> for a value that is not \<open>undefined\<close> or \<open>null\<close>: the own property, else the
  inherited member, else \<open>undefined\<close>.
\<close>

definition read_property :: "host \<Rightarrow> dval \<Rightarrow> string \<Rightarrow> dval" where
  "read_property h v key =
     (case own_property v key of
        Some x \<Rightarrow> x
      | None \<Rightarrow> (case inherited h v key of Some x \<Rightarrow> x | None \<Rightarrow> VUndefined))"

text \<open>\<open>object[key]\<close>: reading a property of \<open>undefined\<close> or \<open>null\<close> raises a TypeError.\<close>

definition get_field :: "host \<Rightarrow> dval \<Rightarrow> string \<Rightarrow> dval run" where
  "get_field h object key =
     (if nullish_data object then throws TypeError
      else returns (read_property h object key))"

text \<open>
  A read on a rule-side value that is not \<open>undefined\<close> or \<open>null\<close>. The engine reads
  rules at four names only: a key that \<open>for ... in\<close> has just listed as own, and
  \<open>arrayRules\<close>, \<open>arrayElementRule\<close>, \<open>length\<close> and the indices below it. The prototypes
  of plain objects, arrays and strings have no member of the last four names other than
  the own \<open>length\<close> of arrays and strings, so these reads find own properties only.
\<close>

fun get_member :: "jv \<Rightarrow> string \<Rightarrow> jv" where
  "get_member (RObj kvs) key = (case map_of kvs key of Some v \<Rightarrow> v | None \<Rightarrow> RUndefined)"
| "get_member (RArr xs) key =
     (case index_of_key key (length xs) of
        Some i \<Rightarrow> xs ! i
      | None \<Rightarrow> if key = ''length'' then RNum (int (length xs)) else RUndefined)"
| "get_member (RStr s) key =
     (case index_of_key key (length s) of
        Some i \<Rightarrow> RStr [s ! i]
      | None \<Rightarrow> if key = ''length'' then RNum (int (length s)) else RUndefined)"
| "get_member r key = RUndefined"

text \<open>
  \<open>Object.keys(x)\<close> for \<open>x\<close> not \<open>undefined\<close> or \<open>null\<close>, which is also what
  \<open>for (key in x)\<close> filtered by \<open>hasOwnProperty\<close> visits: the own enumerable keys. A
  function, a number and a boolean have none.
\<close>

fun object_keys :: "jv \<Rightarrow> string list" where
  "object_keys (RObj kvs) = map fst kvs"
| "object_keys (RArr xs) = map decimal [0..<length xs]"
| "object_keys (RStr s) = map decimal [0..<length s]"
| "object_keys r = []"

section \<open>Results\<close>

text \<open>
  \<open>PrimitiveFieldValidationResult\<close> and \<open>ObjectFieldValidationResult\<close> have the same two
  fields; \<open>'e\<close> is the list of violations for the first and the optional nested error
  tree for the second.
\<close>

record 'e validation_result =
  isValid :: bool
  errors :: 'e

text \<open>
  What \<open>assignErrorsIfAny\<close> stores under a field key: the violations of a primitive
  field, the \<open>ErrorOfArray\<close> of an array field, or the nested error tree of an object
  field. \<open>ErrorOf\<close> is such a tree or \<open>undefined\<close>. A tree lists the own properties of the
  error object in the order they were stored.
\<close>

datatype field_error =
    Violations "jv list"
  | OfArray array_error
  | OfObject "(string \<times> field_error) list"
and array_error =
    ErrorOfArray (arrayErrors: "jv list option") (arrayElementErrors: "element_error list option")
and element_error =
    ElementError (index: nat) (element_errors: "(string \<times> field_error) list") (attemptedValue: dval)

type_synonym error_tree = "(string \<times> field_error) list"

section \<open>The rule classifier\<close>

text \<open>\<open>Object.keys\<close> raises a TypeError on \<open>undefined\<close> and \<open>null\<close>.\<close>

definition isArrayValidationRule :: "jv \<Rightarrow> bool run" where
  "isArrayValidationRule rule =
     (if nullish rule then throws TypeError
      else
        let allowedKeys = {''arrayRules'', ''arrayElementRule''};
            keys = object_keys rule;
            isArrayRule = list_all (\<lambda>key. key \<in> allowedKeys) keys
        in returns isArrayRule)"

section \<open>The primitive field validator\<close>

text \<open>
  The loop of \<open>validatePrimitiveField\<close> reads \<open>rule.length\<close> and then \<open>rule[index]\<close> for
  every index below it. \<open>rule_slots\<close> gives the slots it visits, in order, and whether it
  then runs on for ever.
  \<^item> Reading \<open>length\<close> of \<open>undefined\<close> or \<open>null\<close> raises a TypeError.
  \<^item> For an array the slots are its elements, for a string its characters.
  \<^item> A function has no index properties: whatever its \<open>length\<close> (its parameter count),
    every slot read is \<open>undefined\<close>, which the loop skips, so no slot is listed. A number
    or boolean has no \<open>length\<close>, and the guard \<open>index < undefined\<close> is false.
  \<^item> A plain object is read like an array, up to its own \<open>length\<close>: an absent,
    \<open>undefined\<close> or \<open>null\<close> length gives no iteration, a boolean or number its value,
    anything else what the host's conversion gives. When that is infinite the loop
    visits every index; beyond \<open>index_limit\<close> no key of the object is an index, so the
    slots from there on are all \<open>undefined\<close> and skipped, without end.
\<close>

fun length_bound :: "host \<Rightarrow> jv \<Rightarrow> bound" where
  "length_bound h RUndefined = Finite 0"
| "length_bound h RNull = Finite 0"
| "length_bound h (RBool b) = Finite (if b then 1 else 0)"
| "length_bound h (RNum n) = Finite (nat n)"
| "length_bound h r = coerced_length h r"

text \<open>A number \<open>i\<close> whose numeral is a key of the object has fewer digits than this.\<close>

definition index_limit :: "(string \<times> jv) list \<Rightarrow> nat" where
  "index_limit kvs = 10 ^ foldr (\<lambda>(key, v) n. max (length key) n) kvs 0"

fun rule_slots :: "host \<Rightarrow> jv \<Rightarrow> (jv list \<times> bool) run" where
  "rule_slots h RUndefined = throws TypeError"
| "rule_slots h RNull = throws TypeError"
| "rule_slots h (RArr xs) = returns (xs, False)"
| "rule_slots h (RStr s) = returns (map (\<lambda>c. RStr [c]) s, False)"
| "rule_slots h (RObj kvs) =
     (case length_bound h (get_member (RObj kvs) ''length'') of
        Finite n \<Rightarrow>
          returns (map (\<lambda>i. get_member (RObj kvs) (decimal i)) [0..<n], False)
      | Unbounded \<Rightarrow>
          returns (map (\<lambda>i. get_member (RObj kvs) (decimal i)) [0..<index_limit kvs], True))"
| "rule_slots h r = returns ([], False)"

definition validatePrimitiveField ::
  "host \<Rightarrow> string \<Rightarrow> dval \<Rightarrow> dval \<Rightarrow> jv \<Rightarrow> (jv list) validation_result run" where
  "validatePrimitiveField h key object root rule =
     and_then (rule_slots h rule) (\<lambda>(slots, endless).
     and_then (for_each (enumerate 0 slots) []
        (\<lambda>(index, validateFunc) violations.
           if \<not> truthy validateFunc then returns violations
           else (case validateFunc of
              RFun f \<Rightarrow>
                and_then (get_field h object key) (\<lambda>value.
                and_then (invoke (RuleSlot key index) f value root) (\<lambda>violation.
                returns (if truthy violation then violations @ [violation] else violations)))
            | _ \<Rightarrow> throws NotAFunction)))
       (\<lambda>violations.
     if endless then throws NeverReturns
     else returns \<lparr>isValid = (length violations = 0), errors = violations\<rparr>))"

section \<open>The array validator, the object validator and the tree walker\<close>

text \<open>
  \<open>assignErrorsIfAny\<close> creates the error object on first use and stores the entry: an
  existing key keeps its place, a new key goes to the end. The key \<open>__proto__\<close> is the
  exception. The error object is created by \<open>{}\<close>, so the assignment
  \<open>errors["__proto__"] = violations\<close> reaches the setter of \<open>Object.prototype\<close>: it
  makes \<open>violations\<close> (always an array or an object) the prototype of the error object
  and adds no own property. The error object exists afterwards, and is truthy, but the
  field is not among its own keys.

  \<open>push\<close> appends to \<open>arrayElementErrors\<close>, creating the list on first use. \<open>elements\<close>
  is the \<open>Array.isArray(value)\<close> test together with the elements it guards. An optional
  object or list is truthy exactly when it is \<open>present\<close>.
\<close>

fun present :: "'a option \<Rightarrow> bool" where
  "present None = False"
| "present (Some x) = True"

definition assignErrorsIfAny :: "error_tree option \<Rightarrow> string \<Rightarrow> field_error \<Rightarrow> error_tree option" where
  "assignErrorsIfAny errs key violations =
     (let errs' = (case errs of None \<Rightarrow> [] | Some t \<Rightarrow> t)
      in Some (if key = ''__proto__'' then errs' else AList.update key violations errs'))"

fun push :: "element_error list option \<Rightarrow> element_error \<Rightarrow> element_error list option" where
  "push None e = Some [e]"
| "push (Some es) e = Some (es @ [e])"

fun elements :: "dval \<Rightarrow> dval list option" where
  "elements (VArr xs) = Some xs"
| "elements v = None"

text \<open>
  The three functions call one another. Each recursive call is made on a rule taken from
  inside the current rule: a member of the rule-set, an \<open>arrayElementRule\<close>, or the
  result of calling a builder. \<open>part_of\<close> is that relation; it is well-founded because
  rule values are finite trees.
\<close>

inductive_set part_of :: "(jv \<times> jv) set" where
  element: "x \<in> set xs \<Longrightarrow> (x, RArr xs) \<in> part_of"
| property: "(k, x) \<in> set kvs \<Longrightarrow> (x, RObj kvs) \<in> part_of"
| built: "(f a b, RFun f) \<in> part_of"

inductive_cases part_of_RArrE: "(y, RArr xs) \<in> part_of"
inductive_cases part_of_RObjE: "(y, RObj kvs) \<in> part_of"
inductive_cases part_of_RFunE: "(y, RFun f) \<in> part_of"

lemma part_of_atom:
  "(y, x) \<in> part_of \<Longrightarrow> (\<exists>xs. x = RArr xs) \<or> (\<exists>kvs. x = RObj kvs) \<or> (\<exists>f. x = RFun f)"
  by (auto elim: part_of.cases)

lemma wf_part_of: "wf part_of"
proof (rule wfUNIVI)
  fix P :: "jv \<Rightarrow> bool" and x :: jv
  assume step: "\<forall>x. (\<forall>y. (y, x) \<in> part_of \<longrightarrow> P y) \<longrightarrow> P x"
  have leaf: "P x" if "\<And>y. (y, x) \<notin> part_of" for x
    using step that by blast
  show "P x"
  proof (induction x)
    case (RArr xs)
    have "P y" if "(y, RArr xs) \<in> part_of" for y
      using that RArr by (auto elim: part_of_RArrE)
    then show ?case using step by blast
  next
    case (RObj kvs)
    have "P y" if "(y, RObj kvs) \<in> part_of" for y
      using that
    proof (rule part_of_RObjE)
      fix k assume "(k, y) \<in> set kvs"
      then show "P y" using RObj [of "(k, y)" y] by simp
    qed
    then show ?case using step by blast
  next
    case (RFun f)
    have "P y" if "(y, RFun f) \<in> part_of" for y
      using that
    proof (rule part_of_RFunE)
      fix a b assume "y = f a b"
      then show "P y" using RFun [of "f a" y] by blast
    qed
    then show ?case using step by blast
  qed (auto intro!: leaf dest: part_of_atom)
qed

lemma and_then_cong [fundef_cong]:
  "m = m' \<Longrightarrow> (\<And>a. snd m' = Inr a \<Longrightarrow> k a = k' a) \<Longrightarrow> and_then m k = and_then m' k'"
proof -
  assume eq: "m = m'" and cont: "\<And>a. snd m' = Inr a \<Longrightarrow> k a = k' a"
  obtain log r where m': "m' = (log, r)" by (cases m')
  show ?thesis
  proof (cases r)
    case (Inl e)
    then show ?thesis using eq m' by simp
  next
    case (Inr a)
    then have "k a = k' a" using cont m' by simp
    then show ?thesis using eq m' Inr by simp
  qed
qed

lemma for_each_cong [fundef_cong]:
  "xs = ys \<Longrightarrow> s = t \<Longrightarrow> (\<And>x s. x \<in> set ys \<Longrightarrow> body x s = body' x s)
     \<Longrightarrow> for_each xs s body = for_each ys t body'"
proof (induction ys arbitrary: xs s t)
  case Nil
  then show ?case by simp
next
  case (Cons y ys)
  then show ?case by (auto intro!: and_then_cong)
qed

declare decimal.simps [simp del]

lemma last_decimal: "last (decimal n) = char_of (48 + n mod 10)"
  by (subst decimal.simps) simp

lemma decimal_not_arrayElementRule: "decimal n \<noteq> ''arrayElementRule''"
proof
  assume eq: "decimal n = ''arrayElementRule''"
  have "last (decimal n) = last ''arrayElementRule''" by (simp only: eq)
  also have "\<dots> = CHR ''e''" by simp
  finally have c: "char_of (48 + n mod 10) = CHR ''e''" by (simp only: last_decimal)
  have "of_char (char_of (48 + n mod 10) :: char) = (48 + n mod 10) mod 256"
    by (rule of_char_of)
  moreover have "of_char (CHR ''e'') = (101::nat)" by simp
  ultimately have m: "(48 + n mod 10) mod 256 = 101" by (simp only: c)
  have small: "n mod 10 < 10" by simp
  then have "(48 + n mod 10) mod 256 = 48 + n mod 10" by (intro mod_less) linarith
  then show False using m small by linarith
qed

lemma index_of_key_arrayElementRule: "index_of_key ''arrayElementRule'' n = None"
  by (simp add: index_of_key_def find_None_iff decimal_not_arrayElementRule)

lemma index_of_key_less: "index_of_key key n = Some i \<Longrightarrow> i < n"
  by (auto simp: index_of_key_def find_Some_iff)

lemma member_part_of:
  assumes "truthy (get_member r key)"
    and "typeof (get_member r key) = ''object'' \<or> typeof (get_member r key) = ''function''"
  shows "(get_member r key, r) \<in> part_of"
proof (cases r)
  case (RObj kvs)
  show ?thesis
  proof (cases "map_of kvs key")
    case None
    then show ?thesis using assms RObj by simp
  next
    case (Some x)
    then have "(key, x) \<in> set kvs" by (rule map_of_SomeD)
    then show ?thesis using RObj Some by (simp add: part_of.property)
  qed
next
  case (RArr xs)
  show ?thesis
  proof (cases "index_of_key key (length xs)")
    case None
    then show ?thesis using assms RArr by (simp split: if_splits)
  next
    case (Some i)
    then have "i < length xs" by (rule index_of_key_less)
    then show ?thesis using RArr Some by (simp add: part_of.element)
  qed
next
  case (RStr s)
  then show ?thesis using assms by (simp split: option.splits if_splits)
qed (use assms in simp_all)

lemma arrayElementRule_part_of:
  assumes "truthy (get_member r ''arrayElementRule'')"
  shows "(get_member r ''arrayElementRule'', r) \<in> part_of"
proof (cases r)
  case (RObj kvs)
  show ?thesis
  proof (cases "map_of kvs ''arrayElementRule''")
    case None
    then show ?thesis using assms RObj by simp
  next
    case (Some x)
    then have "(''arrayElementRule'', x) \<in> set kvs" by (rule map_of_SomeD)
    then show ?thesis using RObj Some by (simp add: part_of.property)
  qed
qed (use assms in \<open>simp_all add: index_of_key_arrayElementRule\<close>)

lemma arrayElementRule_less:
  "truthy (get_member r ''arrayElementRule'') \<Longrightarrow>
   (get_member r ''arrayElementRule'', r) \<in> part_of\<^sup>+"
  by (rule r_into_trancl) (rule arrayElementRule_part_of)

lemma built_arrayElementRule_less:
  assumes "RFun build = get_member r ''arrayElementRule''"
  shows "(build a b, r) \<in> part_of\<^sup>+"
proof -
  have "(RFun build, r) \<in> part_of"
    using arrayElementRule_part_of [of r] assms [symmetric] by simp
  moreover have "(build a b, RFun build) \<in> part_of" by (rule part_of.built)
  ultimately show ?thesis by (blast intro: trancl_into_trancl2 r_into_trancl)
qed

lemma typeof_not_array: "typeof r \<noteq> ''array''"
  by (cases r) simp_all

text \<open>
  \<^item> \<open>validateObject\<close>: lines 130 to 190. The loop body is the body of the \<open>for ... in\<close>
    loop; \<open>errs\<close> is the variable \<open>errors\<close>, which starts as \<open>undefined\<close>. The object is
    truthy by the time a field is read (line 151), and the rule is truthy by the time it
    is classified (line 164).
  \<^item> \<open>validateArrayField\<close>: lines 58 to 108. The field is read first (line 60), and
    again on every re-entry for a built rule. Reading \<open>.arrayRules\<close> of a rule that a
    builder resolved to \<open>undefined\<close> or \<open>null\<close> raises a TypeError. The loop over
    \<open>arrayRules\<close> runs once per slot and each time validates the whole list; when the
    list is endless, the first of these calls does not return.
  \<^item> \<open>validateObjectField\<close>: lines 111 to 122; its local \<open>violations\<close> stays empty, so
    \<open>isValid\<close> is \<open>!error\<close>. When it is false \<open>errors\<close> holds the nested tree, so the
    \<open>None\<close> branch of the caller's \<open>case\<close> is never taken.
\<close>

function validateObject :: "host \<Rightarrow> dval \<Rightarrow> dval \<Rightarrow> jv \<Rightarrow> error_tree option run"
  and validateArrayField :: "host \<Rightarrow> string \<Rightarrow> dval \<Rightarrow> dval \<Rightarrow> jv \<Rightarrow> array_error run"
  and validateObjectField ::
    "host \<Rightarrow> string \<Rightarrow> dval \<Rightarrow> dval \<Rightarrow> jv \<Rightarrow> (error_tree option) validation_result run"
where
  "validateObject h object rootObject validationRule =
     (if \<not> truthy validationRule then throws RuleSetMissing
      else
        let object = (if \<not> truthy_data object then VObj [] else object) in
        for_each (object_keys validationRule) None
          (\<lambda>key errs.
             let rule = get_member validationRule key in
             and_then (get_field h object key) (\<lambda>value.
             if \<not> truthy rule then returns errs
             else if typeof rule \<notin> {''array'', ''object'', ''function''}
               then throws (InvalidRuleType (typeof rule))
             else
               let isPrimitiveProperty = isArray rule in
               and_then (isArrayValidationRule rule) (\<lambda>isArrayProperty.
               let isObjectProperty = (typeof_data value = ''object'') in
               if isPrimitiveProperty then
                 and_then (validatePrimitiveField h key object rootObject rule) (\<lambda>validationResult.
                 returns (if \<not> isValid validationResult
                          then assignErrorsIfAny errs key (Violations (errors validationResult))
                          else errs))
               else if isArrayProperty then
                 and_then (validateArrayField h key object rootObject rule) (\<lambda>result.
                 returns (if present (arrayErrors result) \<or> present (arrayElementErrors result)
                          then assignErrorsIfAny errs key (OfArray result)
                          else errs))
               else if isObjectProperty then
                 and_then (validateObjectField h key object rootObject rule) (\<lambda>error.
                 returns (if \<not> isValid error
                          then (case errors error of
                                  Some tree \<Rightarrow> assignErrorsIfAny errs key (OfObject tree)
                                | None \<Rightarrow> errs)
                          else errs))
               else returns errs))))"
| "validateArrayField h key object root rule =
     and_then (get_field h object key) (\<lambda>value.
      case rule of
        RFun build \<Rightarrow>
          and_then (invoke (RuleBuilder key) build value root) (\<lambda>arrayRule.
          validateArrayField h key object root arrayRule)
      | _ \<Rightarrow>
          if nullish rule then throws TypeError
          else
            let arrayRules = get_member rule ''arrayRules'';
                arrayElementRule = get_member rule ''arrayElementRule''
            in
            and_then
              (if truthy arrayRules then
                 and_then (rule_slots h arrayRules) (\<lambda>(slots, endless).
                 for_each [0..<length slots] (ErrorOfArray None None)
                   (\<lambda>index arrayFieldErrors.
                      and_then (validatePrimitiveField h key object root arrayRules) (\<lambda>res.
                      returns (if \<not> isValid res
                               then ErrorOfArray (Some (errors res)) (arrayElementErrors arrayFieldErrors)
                               else arrayFieldErrors))))
               else returns (ErrorOfArray None None))
              (\<lambda>arrayFieldErrors.
            case elements value of
              Some xs \<Rightarrow>
                if truthy arrayElementRule then
                  for_each (enumerate 0 xs) arrayFieldErrors
                    (\<lambda>(index, element) arrayFieldErrors.
                       and_then
                         (case arrayElementRule of
                            RFun build \<Rightarrow>
                              and_then (invoke (ElementRuleBuilder key index) build element root) (\<lambda>validationRule.
                              validateObject h element root validationRule)
                          | _ \<Rightarrow> validateObject h element root arrayElementRule)
                         (\<lambda>error.
                       returns (case error of
                                  Some tree \<Rightarrow>
                                    ErrorOfArray (arrayErrors arrayFieldErrors)
                                      (push (arrayElementErrors arrayFieldErrors)
                                         (ElementError index tree element))
                                | None \<Rightarrow> arrayFieldErrors)))
                else returns arrayFieldErrors
            | None \<Rightarrow> returns arrayFieldErrors))"
| "validateObjectField h key object root rule =
     and_then (get_field h object key) (\<lambda>value.
      and_then (validateObject h value root rule) (\<lambda>error.
      returns \<lparr>isValid = (\<not> present error), errors = error\<rparr>))"
  by pat_completeness auto
termination
proof (relation "inv_image (part_of\<^sup>+ <*lex*> less_than)
     (\<lambda>x. case x of Inl (h, object, root, rule) \<Rightarrow> (rule, 0::nat)
         | Inr (Inl (h, key, object, root, rule)) \<Rightarrow> (rule, 0)
         | Inr (Inr (h, key, object, root, rule)) \<Rightarrow> (rule, 1))", goal_cases)
  case 1
  show ?case by (simp add: wf_lex_prod wf_trancl wf_part_of)
next
  case 2
  then show ?case by (auto simp: typeof_not_array intro!: member_part_of)
next
  case 3
  then show ?case by (auto simp: typeof_not_array intro!: member_part_of)
qed (auto simp del: get_member.simps simp add: invoke_def
      intro: arrayElementRule_less built_arrayElementRule_less part_of.built)

declare validateObject.simps [simp del] validateArrayField.simps [simp del]
  validateObjectField.simps [simp del]

section \<open>Sample rule functions and a sample host\<close>

text \<open>
  The rule-function library is outside the engine; the engine only needs a rule to be a
  function of \<open>(value, root)\<close> that returns a violation or nothing. These two stand in
  for \<open>required()\<close> and a minimum-length rule in the concrete examples below; the
  message of the first is the one the repository's test expects.
\<close>

definition requiredRule :: "dval \<Rightarrow> dval \<Rightarrow> jv" where
  "requiredRule v root =
     (if truthy_data v then RUndefined else RStr ''This field is required.'')"

definition minLengthRule :: "nat \<Rightarrow> dval \<Rightarrow> dval \<Rightarrow> jv" where
  "minLengthRule n v root =
     (case v of
        VStr s \<Rightarrow> if length s < n then RStr ''Too short.'' else RUndefined
      | _ \<Rightarrow> RStr ''Too short.'')"

text \<open>
  The theorems below hold for every host. The concrete examples need one: \<open>plain_host\<close>
  is the host of a fresh JavaScript realm as far as the examples reach. A plain object
  inherits the members of \<open>Object.prototype\<close>, listed in \<open>objectPrototype\<close>, and its
  \<open>__proto__\<close> reads as that prototype object, whose own \<open>__proto__\<close> reads as \<open>null\<close>.
  The examples read inherited properties of plain objects only, and no rule list of
  theirs has a \<open>length\<close> that needs converting: for other values the sample host lists
  no inherited member, and it converts every \<open>length\<close> to no iteration, which is what
  JavaScript does for an object or a function (they convert to \<open>NaN\<close>).
\<close>

definition objectPrototype :: "(string \<times> dval) list" where
  "objectPrototype = map (\<lambda>name. (name, VFunction name))
     [''constructor'', ''hasOwnProperty'', ''isPrototypeOf'', ''propertyIsEnumerable'',
      ''toLocaleString'', ''toString'', ''valueOf'', ''__defineGetter__'',
      ''__defineSetter__'', ''__lookupGetter__'', ''__lookupSetter__'']"

definition plain_host :: host where
  "plain_host =
     \<lparr>inherited = (\<lambda>v key.
        case v of
          VObj kvs \<Rightarrow>
            if kvs = objectPrototype
            then (if key = ''__proto__'' then Some VNull else None)
            else if key = ''__proto__'' then Some (VObj objectPrototype)
            else map_of objectPrototype key
        | _ \<Rightarrow> None),
      coerced_length = (\<lambda>r. Finite 0)\<rparr>"

section \<open>Basic facts about outcomes and reads\<close>

lemmas run_simps =
  validateObject.simps validateArrayField.simps validateObjectField.simps
  validatePrimitiveField_def returns_def throws_def invoke_def assignErrorsIfAny_def
  isArrayValidationRule_def get_field_def read_property_def plain_host_def
  objectPrototype_def

lemma and_then_returns [simp]: "and_then (returns a) k = k a"
  by (cases "k a") (simp add: returns_def)

lemma and_then_throws [simp]: "and_then (throws e) k = throws e"
  by (simp add: throws_def)

lemma and_then_invoke [simp]:
  "and_then (invoke site f v root) k =
     (Call site v root # fst (k (f v root)), snd (k (f v root)))"
  by (cases "k (f v root)") (simp add: invoke_def)

lemma and_then_returns_right: "and_then m returns = m"
proof (cases m)
  case (Pair log r)
  then show ?thesis by (cases r) (simp_all add: returns_def)
qed

lemma and_then_assoc:
  "and_then (and_then m f) g = and_then m (\<lambda>x. and_then (f x) g)"
proof (cases m)
  case (Pair log r)
  show ?thesis
  proof (cases r)
    case (Inl e)
    then show ?thesis using Pair by simp
  next
    case (Inr a)
    obtain log1 r1 where f: "f a = (log1, r1)" by (cases "f a")
    show ?thesis
    proof (cases r1)
      case (Inl e)
      then show ?thesis using Pair Inr f by simp
    next
      case (Inr b)
      obtain log2 r2 where g: "g b = (log2, r2)" by (cases "g b")
      show ?thesis using Pair \<open>r = Inr a\<close> f Inr g by simp
    qed
  qed
qed

lemma and_then_if:
  "and_then (if c then a else b) k = (if c then and_then a k else and_then b k)"
  by simp

lemma and_then_Inr:
  assumes "and_then m f = (log, Inr b)"
  obtains l1 a l2 where "m = (l1, Inr a)" and "f a = (l2, Inr b)" and "log = l1 @ l2"
proof (cases m)
  case (Pair l1 r)
  show ?thesis
  proof (cases r)
    case (Inl e)
    then show ?thesis using assms Pair by simp
  next
    case (Inr a)
    obtain l2 r2 where f: "f a = (l2, r2)" by (cases "f a")
    then have "r2 = Inr b" and "log = l1 @ l2" using assms Pair Inr by simp_all
    then show ?thesis using that Pair Inr f by simp
  qed
qed



text \<open>
  A read succeeds on every value but \<open>undefined\<close> and \<open>null\<close>; a truthy value is
  neither.
\<close>

lemma truthy_not_nullish: "truthy_data v \<Longrightarrow> \<not> nullish_data v"
  by (cases v) simp_all

lemma get_field_returns:
  "\<not> nullish_data object \<Longrightarrow> get_field h object key = returns (read_property h object key)"
  by (simp add: get_field_def)

lemma get_field_nullish:
  "nullish_data object \<Longrightarrow> get_field h object key = throws TypeError"
  by (simp add: get_field_def)

lemma get_field_value:
  "get_field h object key = returns value \<longleftrightarrow>
     \<not> nullish_data object \<and> value = read_property h object key"
  by (auto simp: get_field_def returns_def throws_def)

lemma truthy_not_nullish_rule: "truthy r \<Longrightarrow> \<not> nullish r"
  by (cases r) simp_all


section \<open>The primitive field validator runs every rule, in order\<close>

lemma primitive_loop:
  assumes "get_field h object key = returns value"
  shows "for_each (enumerate n (map RFun fs)) acc
     (\<lambda>(index, validateFunc) violations.
        if \<not> truthy validateFunc then returns violations
        else (case validateFunc of
           RFun f \<Rightarrow>
             and_then (get_field h object key) (\<lambda>value.
             and_then (invoke (RuleSlot key index) f value root) (\<lambda>violation.
             returns (if truthy violation then violations @ [violation] else violations)))
         | _ \<Rightarrow> throws NotAFunction))
   = (map (\<lambda>i. Call (RuleSlot key i) value root) [n..<n + length fs],
      Inr (acc @ filter truthy (map (\<lambda>f. f value root) fs)))"
proof (induction fs arbitrary: n acc)
  case Nil
  then show ?case by (simp add: returns_def)
next
  case (Cons f fs)
  show ?case
    by (simp add: assms Cons.IH upt_conv_Cons del: upt_Suc) (simp add: returns_def)
qed

lemma validatePrimitiveField_functions:
  assumes "\<not> nullish_data object"
  shows "validatePrimitiveField h key object root (RArr (map RFun fs)) =
     (map (\<lambda>i. Call (RuleSlot key i) (read_property h object key) root) [0..<length fs],
      Inr \<lparr>isValid = (filter truthy (map (\<lambda>f. f (read_property h object key) root) fs) = []),
           errors = filter truthy (map (\<lambda>f. f (read_property h object key) root) fs)\<rparr>)"
proof -
  note loop = primitive_loop [OF get_field_returns [OF assms], where n = 0 and fs = fs
      and acc = "[]" and root = root]
  show ?thesis
    unfolding validatePrimitiveField_def
    by (simp add: loop) (simp add: returns_def filter_map)
qed

lemma validatePrimitiveField_nullish:
  assumes "nullish_data object"
  shows "validatePrimitiveField h key object root (RArr (map RFun fs)) =
     (if fs = [] then ([], Inr \<lparr>isValid = True, errors = []\<rparr>) else ([], Inl TypeError))"
proof (cases fs)
  case Nil
  then show ?thesis by (simp add: validatePrimitiveField_def) (simp add: returns_def)
next
  case (Cons f fs')
  then show ?thesis
    by (simp add: validatePrimitiveField_def get_field_nullish [OF assms])
       (simp add: throws_def)
qed

text \<open>
  Claim C6. For a rule list whose slots are the functions \<open>fs\<close>, and an object whose
  properties can be read, the primitive field validator calls every one of the
  functions, in list order, each with the field's current value \<open>object[key]\<close> and the
  root; no violation stops the loop; \<open>errors\<close> is the list of the truthy results in list
  order; and \<open>isValid\<close> holds exactly when that list is empty. When the object is
  \<open>undefined\<close> or \<open>null\<close>, reading the field for the first rule raises a TypeError
  before any rule is called; with no rule in the list nothing is read and the result is
  valid.
\<close>

theorem primitive_rules_all_run_in_order:
  "validatePrimitiveField h key object root (RArr (map RFun fs)) =
     (if nullish_data object
      then (if fs = [] then ([], Inr \<lparr>isValid = True, errors = []\<rparr>) else ([], Inl TypeError))
      else (map (\<lambda>i. Call (RuleSlot key i) (read_property h object key) root) [0..<length fs],
            Inr \<lparr>isValid = (filter truthy (map (\<lambda>f. f (read_property h object key) root) fs) = []),
                 errors = filter truthy (map (\<lambda>f. f (read_property h object key) root) fs)\<rparr>))"
  by (simp add: validatePrimitiveField_functions validatePrimitiveField_nullish)

text \<open>
  The example of the specification: \<open>[requiredRule, minLengthRule]\<close> against an empty
  string yields both violations. Against no object at all the same list throws.
\<close>

theorem primitive_rules_all_run_in_order_witness:
  "validatePrimitiveField plain_host ''name'' (VObj [(''name'', VStr [])]) (VObj [])
     (RArr [RFun requiredRule, RFun (minLengthRule 3)]) =
   ([Call (RuleSlot ''name'' 0) (VStr []) (VObj []),
     Call (RuleSlot ''name'' 1) (VStr []) (VObj [])],
    Inr \<lparr>isValid = False,
         errors = [RStr ''This field is required.'', RStr ''Too short.'']\<rparr>)
   \<and> validatePrimitiveField plain_host ''name'' VUndefined (VObj [])
       (RArr [RFun requiredRule, RFun (minLengthRule 3)]) = ([], Inl TypeError)"
  using primitive_rules_all_run_in_order
          [of plain_host "''name''" "VObj [(''name'', VStr [])]" "VObj []"
              "[requiredRule, minLengthRule 3]"]
        primitive_rules_all_run_in_order
          [of plain_host "''name''" VUndefined "VObj []" "[requiredRule, minLengthRule 3]"]
  by (simp add: requiredRule_def minLengthRule_def upt_conv_Cons read_property_def)

section \<open>A missing object is validated as the empty object\<close>


section \<open>The tree walker as a loop over per-field outcomes\<close>

text \<open>
  \<open>field_outcome\<close> is the body of the \<open>for ... in\<close> loop of \<open>validateObject\<close> for one
  key, with the entry it would store (if any) as its value; \<open>record_outcome\<close> is the
  store. \<open>validateObject_fields\<close> below shows that the tree walker is exactly the loop
  of these two over the declared keys.
\<close>

definition field_outcome :: "host \<Rightarrow> string \<Rightarrow> dval \<Rightarrow> dval \<Rightarrow> jv \<Rightarrow> field_error option run" where
  "field_outcome h key object rootObject rule =
     and_then (get_field h object key) (\<lambda>value.
     if \<not> truthy rule then returns None
     else if typeof rule \<notin> {''array'', ''object'', ''function''}
       then throws (InvalidRuleType (typeof rule))
     else
       and_then (isArrayValidationRule rule) (\<lambda>isArrayProperty.
       if isArray rule then
         and_then (validatePrimitiveField h key object rootObject rule) (\<lambda>validationResult.
         returns (if \<not> isValid validationResult
                  then Some (Violations (errors validationResult)) else None))
       else if isArrayProperty then
         and_then (validateArrayField h key object rootObject rule) (\<lambda>result.
         returns (if present (arrayErrors result) \<or> present (arrayElementErrors result)
                  then Some (OfArray result) else None))
       else if typeof_data value = ''object'' then
         and_then (validateObjectField h key object rootObject rule) (\<lambda>error.
         returns (if \<not> isValid error then map_option OfObject (errors error) else None))
       else returns None))"

fun record_outcome :: "error_tree option \<Rightarrow> string \<Rightarrow> field_error option \<Rightarrow> error_tree option" where
  "record_outcome errs key None = errs"
| "record_outcome errs key (Some e) = assignErrorsIfAny errs key e"



lemma record_outcome_if:
  "record_outcome errs key (if c then Some e else None) =
     (if c then assignErrorsIfAny errs key e else errs)"
  by simp

lemma record_outcome_if_map:
  "record_outcome errs key (if c then map_option OfObject t else None) =
     (if c then (case t of Some tree \<Rightarrow> assignErrorsIfAny errs key (OfObject tree) | None \<Rightarrow> errs)
      else errs)"
  by (cases t) simp_all

lemma validateObject_fields:
  "validateObject h object root R =
     (if \<not> truthy R then throws RuleSetMissing
      else for_each (object_keys R) None
             (\<lambda>key errs.
                and_then (field_outcome h key (if \<not> truthy_data object then VObj [] else object)
                            root (get_member R key))
                  (\<lambda>outcome. returns (record_outcome errs key outcome))))"
  unfolding field_outcome_def
  by (subst validateObject.simps)
     (simp only: Let_def and_then_if and_then_assoc and_then_returns and_then_throws
        record_outcome_if record_outcome_if_map record_outcome.simps)

lemma validateObject_single_field:
  "validateObject h object root (RObj [(key, rule)]) =
     and_then (field_outcome h key (if \<not> truthy_data object then VObj [] else object) root rule)
       (\<lambda>outcome. returns (record_outcome None key outcome))"
  by (simp add: validateObject_fields and_then_returns_right)




lemma field_outcome_array:
  assumes "\<not> nullish_data object" and "truthy rule"
    and "typeof rule = ''object'' \<or> typeof rule = ''function''"
    and "\<not> isArray rule" and "isArrayValidationRule rule = returns True"
  shows "field_outcome h key object root rule =
     and_then (validateArrayField h key object root rule) (\<lambda>result.
     returns (if present (arrayErrors result) \<or> present (arrayElementErrors result)
              then Some (OfArray result) else None))"
  using assms by (auto simp: field_outcome_def get_field_returns)









lemma set_map_filter:
  "set (List.map_filter f xs) = {y. \<exists>x \<in> set xs. f x = Some y}"
  by (induction xs) (auto simp: List.map_filter_simps split: option.splits)








section \<open>Rule-sets of rule decls\<close>











section \<open>The array validator in parts\<close>

text \<open>
  \<open>validateArrayField\<close> first calls a builder rule, again and again while the result is
  itself a function (lines 63 to 66): \<open>resolve\<close> is the rule it ends with and
  \<open>builder_calls\<close> the calls it makes on the way. The rest of its body has two parts,
  named here so that they can be talked about: \<open>whole_array_errors\<close> is the loop over
  \<open>arrayRules\<close> (lines 72 to 79) and \<open>element_error_of\<close> is the validation of one
  element (lines 84 to 91), whose error \<open>record_element\<close> appends (lines 92 to 102).
  \<open>validateArrayField_static\<close> and \<open>validateArrayField_builder\<close> show that the
  validator is exactly the composition of these parts.
\<close>

primrec resolve :: "jv \<Rightarrow> dval \<Rightarrow> dval \<Rightarrow> jv" where
  "resolve RUndefined v root = RUndefined"
| "resolve RNull v root = RNull"
| "resolve (RBool b) v root = RBool b"
| "resolve (RNum n) v root = RNum n"
| "resolve (RStr s) v root = RStr s"
| "resolve (RArr xs) v root = RArr xs"
| "resolve (RObj kvs) v root = RObj kvs"
| "resolve (RFun build) v root = resolve (build v root) v root"

primrec builder_calls :: "callee \<Rightarrow> jv \<Rightarrow> dval \<Rightarrow> dval \<Rightarrow> call list" where
  "builder_calls site RUndefined v root = []"
| "builder_calls site RNull v root = []"
| "builder_calls site (RBool b) v root = []"
| "builder_calls site (RNum n) v root = []"
| "builder_calls site (RStr s) v root = []"
| "builder_calls site (RArr xs) v root = []"
| "builder_calls site (RObj kvs) v root = []"
| "builder_calls site (RFun build) v root = Call site v root # builder_calls site (build v root) v root"

definition whole_array_errors :: "host \<Rightarrow> string \<Rightarrow> dval \<Rightarrow> dval \<Rightarrow> jv \<Rightarrow> array_error run" where
  "whole_array_errors h key object root arrayRules =
     (if truthy arrayRules then
        and_then (rule_slots h arrayRules) (\<lambda>(slots, endless).
        for_each [0..<length slots] (ErrorOfArray None None)
          (\<lambda>index arrayFieldErrors.
             and_then (validatePrimitiveField h key object root arrayRules) (\<lambda>res.
             returns (if \<not> isValid res
                      then ErrorOfArray (Some (errors res)) (arrayElementErrors arrayFieldErrors)
                      else arrayFieldErrors))))
      else returns (ErrorOfArray None None))"

definition element_error_of :: "host \<Rightarrow> string \<Rightarrow> dval \<Rightarrow> jv \<Rightarrow> nat \<Rightarrow> dval \<Rightarrow> error_tree option run" where
  "element_error_of h key root arrayElementRule i element =
     (case arrayElementRule of
        RFun build \<Rightarrow>
          and_then (invoke (ElementRuleBuilder key i) build element root) (\<lambda>validationRule.
          validateObject h element root validationRule)
      | _ \<Rightarrow> validateObject h element root arrayElementRule)"

fun record_element :: "array_error \<Rightarrow> nat \<Rightarrow> dval \<Rightarrow> error_tree option \<Rightarrow> array_error" where
  "record_element arrayFieldErrors i element None = arrayFieldErrors"
| "record_element arrayFieldErrors i element (Some tree) =
     ErrorOfArray (arrayErrors arrayFieldErrors)
       (push (arrayElementErrors arrayFieldErrors) (ElementError i tree element))"

lemma record_element_case:
  "(case error of
      Some tree \<Rightarrow>
        ErrorOfArray (arrayErrors a) (push (arrayElementErrors a) (ElementError i tree element))
    | None \<Rightarrow> a) = record_element a i element error"
  by (cases error) simp_all

lemma validateArrayField_nullish_object:
  "nullish_data object \<Longrightarrow> validateArrayField h key object root rule = throws TypeError"
  by (subst validateArrayField.simps) (simp add: get_field_nullish)

lemma validateArrayField_read:
  assumes "\<not> nullish_data object"
  shows "validateArrayField h key object root (RFun build) =
     and_then (invoke (RuleBuilder key) build (read_property h object key) root)
       (\<lambda>arrayRule. validateArrayField h key object root arrayRule)"
  by (subst validateArrayField.simps) (simp add: get_field_returns [OF assms])

lemma validateArrayField_static:
  assumes "typeof rule \<noteq> ''function''" and "\<not> nullish rule" and "\<not> nullish_data object"
  shows "validateArrayField h key object root rule =
     and_then (whole_array_errors h key object root (get_member rule ''arrayRules''))
       (\<lambda>arrayFieldErrors.
          case elements (read_property h object key) of
            Some xs \<Rightarrow>
              if truthy (get_member rule ''arrayElementRule'') then
                for_each (enumerate 0 xs) arrayFieldErrors
                  (\<lambda>(index, element) arrayFieldErrors.
                     and_then (element_error_of h key root (get_member rule ''arrayElementRule'') index element)
                       (\<lambda>error. returns (record_element arrayFieldErrors index element error)))
              else returns arrayFieldErrors
          | None \<Rightarrow> returns arrayFieldErrors)"
  using assms(1,2)
  by (subst validateArrayField.simps; cases rule)
     (simp_all only: Let_def jv.case whole_array_errors_def element_error_of_def
        record_element_case nullish.simps typeof.simps if_False if_True simp_thms
        get_field_returns [OF assms(3)] and_then_returns)

lemma validateArrayField_builder:
  assumes "\<not> nullish_data object"
  shows "validateArrayField h key object root rule =
     (builder_calls (RuleBuilder key) rule (read_property h object key) root
        @ fst (validateArrayField h key object root (resolve rule (read_property h object key) root)),
      snd (validateArrayField h key object root (resolve rule (read_property h object key) root)))"
proof (induction rule)
  case (RFun build)
  have "validateArrayField h key object root (RFun build) =
     (Call (RuleBuilder key) (read_property h object key) root
        # fst (validateArrayField h key object root (build (read_property h object key) root)),
      snd (validateArrayField h key object root (build (read_property h object key) root)))"
    by (simp add: validateArrayField_read [OF assms])
  then show ?case
    using RFun [of "build (read_property h object key)" "build (read_property h object key) root"]
    by simp
qed simp_all

lemma typeof_resolve: "typeof (resolve rule v root) \<noteq> ''function''"
proof (induction rule)
  case (RFun build)
  show ?case using RFun [of "build v" "build v root"] by simp
qed simp_all

fun listed :: "'a list option \<Rightarrow> 'a list" where
  "listed None = []"
| "listed (Some es) = es"

definition failing_element :: "host \<Rightarrow> string \<Rightarrow> dval \<Rightarrow> jv \<Rightarrow> nat \<times> dval \<Rightarrow> element_error option" where
  "failing_element h key root arrayElementRule =
     (\<lambda>(i, element).
        case snd (element_error_of h key root arrayElementRule i element) of
          Inr (Some tree) \<Rightarrow> Some (ElementError i tree element)
        | _ \<Rightarrow> None)"

lemma listed_push: "listed (push es e) = listed es @ [e]"
  by (cases es) simp_all

lemma push_not_empty: "push es e \<noteq> Some []"
  by (cases es) simp_all

lemma elements_loop:
  assumes "for_each ixs a
             (\<lambda>(i, element) arrayFieldErrors.
                and_then (element_error_of h key root er i element)
                  (\<lambda>error. returns (record_element arrayFieldErrors i element error)))
           = (log, Inr res)"
  shows "arrayErrors res = arrayErrors a
       \<and> listed (arrayElementErrors res) =
           listed (arrayElementErrors a) @ List.map_filter (failing_element h key root er) ixs
       \<and> (\<forall>(i, element) \<in> set ixs. \<exists>outcome. snd (element_error_of h key root er i element) = Inr outcome)
       \<and> (arrayElementErrors a \<noteq> Some [] \<longrightarrow> arrayElementErrors res \<noteq> Some [])"
  using assms
proof (induction ixs arbitrary: a log)
  case Nil
  then show ?case by (simp add: returns_def List.map_filter_simps)
next
  case (Cons p ps)
  obtain i element where p: "p = (i, element)" by (cases p)
  let ?step = "\<lambda>(i, element) arrayFieldErrors.
                and_then (element_error_of h key root er i element)
                  (\<lambda>error. returns (record_element arrayFieldErrors i element error))"
  from Cons.prems have "and_then (?step p a) (\<lambda>s'. for_each ps s' ?step) = (log, Inr res)"
    by simp
  then obtain l1 a' l2 where step: "?step p a = (l1, Inr a')"
    and rest: "for_each ps a' ?step = (l2, Inr res)"
    by (rule and_then_Inr)
  from step have "and_then (element_error_of h key root er i element)
                  (\<lambda>error. returns (record_element a i element error)) = (l1, Inr a')"
    by (simp add: p)
  then obtain l0 error l0' where chk: "element_error_of h key root er i element = (l0, Inr error)"
    and rec: "returns (record_element a i element error) = (l0', Inr a')"
    by (rule and_then_Inr)
  from rec have a': "a' = record_element a i element error" by (simp add: returns_def)
  have fe: "failing_element h key root er (i, element) =
      (case error of Some tree \<Rightarrow> Some (ElementError i tree element) | None \<Rightarrow> None)"
    using chk by (simp add: failing_element_def split: option.splits)
  note IH = Cons.IH [OF rest]
  from IH have ih1: "arrayErrors res = arrayErrors a'" by (rule conjunct1)
  from IH have ih2: "listed (arrayElementErrors res) =
           listed (arrayElementErrors a') @ List.map_filter (failing_element h key root er) ps"
    by (rule conjunct1 [OF conjunct2])
  from IH have ih3: "\<forall>(i, element) \<in> set ps.
      \<exists>outcome. snd (element_error_of h key root er i element) = Inr outcome"
    by (rule conjunct1 [OF conjunct2 [OF conjunct2]])
  from IH have ih4: "arrayElementErrors a' \<noteq> Some [] \<longrightarrow> arrayElementErrors res \<noteq> Some []"
    by (rule conjunct2 [OF conjunct2 [OF conjunct2]])
  have 1: "arrayErrors res = arrayErrors a"
    unfolding ih1 a' by (cases error) simp_all
  have 2: "listed (arrayElementErrors res) =
           listed (arrayElementErrors a) @ List.map_filter (failing_element h key root er) (p # ps)"
    unfolding ih2 a' p
    by (cases error) (simp_all add: List.map_filter_simps fe listed_push)
  have 3: "\<forall>(i, element) \<in> set (p # ps).
      \<exists>outcome. snd (element_error_of h key root er i element) = Inr outcome"
    using ih3 chk by (simp add: p)
  have 4: "arrayElementErrors a \<noteq> Some [] \<longrightarrow> arrayElementErrors res \<noteq> Some []"
    using ih4 unfolding a' by (cases error) (simp_all add: push_not_empty)
  show ?case by (intro conjI 1 2 3 4)
qed

lemma whole_array_loop_keeps_elements:
  assumes "for_each idxs a
             (\<lambda>i arrayFieldErrors.
                and_then m (\<lambda>res.
                returns (if \<not> isValid res
                         then ErrorOfArray (Some (errors res)) (arrayElementErrors arrayFieldErrors)
                         else arrayFieldErrors)))
           = (log, Inr res)"
  shows "arrayElementErrors res = arrayElementErrors a"
  using assms
proof (induction idxs arbitrary: a log)
  case Nil
  then show ?case by (simp add: returns_def)
next
  case (Cons i idxs)
  let ?step = "\<lambda>i arrayFieldErrors.
                and_then m (\<lambda>res.
                returns (if \<not> isValid res
                         then ErrorOfArray (Some (errors res)) (arrayElementErrors arrayFieldErrors)
                         else arrayFieldErrors))"
  from Cons.prems have "and_then (?step i a) (\<lambda>s'. for_each idxs s' ?step) = (log, Inr res)"
    by simp
  then obtain l1 a' l2 where step: "?step i a = (l1, Inr a')"
    and rest: "for_each idxs a' ?step = (l2, Inr res)"
    by (rule and_then_Inr)
  from step obtain l0 r l0' where "m = (l0, Inr r)" and
    "returns (if \<not> isValid r then ErrorOfArray (Some (errors r)) (arrayElementErrors a) else a)
       = (l0', Inr a')"
    by (rule and_then_Inr)
  then have "arrayElementErrors a' = arrayElementErrors a"
    by (auto simp: returns_def split: if_splits)
  then show ?case using Cons.IH [OF rest] by simp
qed

lemma whole_array_errors_no_elements:
  assumes "whole_array_errors h key object root arrayRules = (log, Inr a)"
  shows "arrayElementErrors a = None"
proof (cases "truthy arrayRules")
  case False
  then show ?thesis using assms by (auto simp: whole_array_errors_def returns_def)
next
  case True
  with assms have "and_then (rule_slots h arrayRules) (\<lambda>(slots, endless).
        for_each [0..<length slots] (ErrorOfArray None None)
          (\<lambda>i arrayFieldErrors.
             and_then (validatePrimitiveField h key object root arrayRules) (\<lambda>res.
             returns (if \<not> isValid res
                      then ErrorOfArray (Some (errors res)) (arrayElementErrors arrayFieldErrors)
                      else arrayFieldErrors)))) = (log, Inr a)"
    by (simp add: whole_array_errors_def)
  then obtain l1 p l2 where "rule_slots h arrayRules = (l1, Inr p)"
    and "(case p of (slots, endless) \<Rightarrow>
        for_each [0..<length slots] (ErrorOfArray None None)
          (\<lambda>i arrayFieldErrors.
             and_then (validatePrimitiveField h key object root arrayRules) (\<lambda>res.
             returns (if \<not> isValid res
                      then ErrorOfArray (Some (errors res)) (arrayElementErrors arrayFieldErrors)
                      else arrayFieldErrors)))) = (l2, Inr a)"
    by (rule and_then_Inr)
  then have "for_each [0..<length (fst p)] (ErrorOfArray None None)
          (\<lambda>i arrayFieldErrors.
             and_then (validatePrimitiveField h key object root arrayRules) (\<lambda>res.
             returns (if \<not> isValid res
                      then ErrorOfArray (Some (errors res)) (arrayElementErrors arrayFieldErrors)
                      else arrayFieldErrors))) = (l2, Inr a)"
    by (cases p) simp
  from whole_array_loop_keeps_elements [OF this] show ?thesis by simp
qed

lemma whole_array_loop_result:
  "for_each idxs a
     (\<lambda>i arrayFieldErrors.
        and_then (calls, Inr r) (\<lambda>res.
        returns (if \<not> isValid res
                 then ErrorOfArray (Some (errors res)) (arrayElementErrors arrayFieldErrors)
                 else arrayFieldErrors)))
   = (concat (replicate (length idxs) calls),
      Inr (if idxs = [] \<or> isValid r then a
           else ErrorOfArray (Some (errors r)) (arrayElementErrors a)))"
proof (induction idxs arbitrary: a)
  case Nil
  then show ?case by (simp add: returns_def)
next
  case (Cons i idxs)
  show ?case
    by (subst for_each.simps, subst and_then.simps, subst Cons.IH)
       (simp add: returns_def)
qed

lemma whole_array_errors_functions:
  assumes "\<not> nullish_data object"
  shows "whole_array_errors h key object root (RArr (map RFun fs)) =
     (concat (replicate (length fs)
        (map (\<lambda>i. Call (RuleSlot key i) (read_property h object key) root) [0..<length fs])),
      Inr (ErrorOfArray
        (if filter truthy (map (\<lambda>f. f (read_property h object key) root) fs) = [] then None
         else Some (filter truthy (map (\<lambda>f. f (read_property h object key) root) fs)))
        None))"
  unfolding whole_array_errors_def validatePrimitiveField_functions [OF assms]
  by (simp only: truthy.simps if_True rule_slots.simps and_then_returns length_map
        whole_array_loop_result prod.case)
     simp

lemma failing_element_Some:
  "failing_element h key root er (i, x) = Some e \<longleftrightarrow>
     (\<exists>tree. snd (element_error_of h key root er i x) = Inr (Some tree)
        \<and> e = ElementError i tree x)"
  by (auto simp: failing_element_def split: sum.splits option.splits)

lemma index_failing_elements:
  "map index (List.map_filter (failing_element h key root er) ixs) =
     map fst (filter (\<lambda>p. failing_element h key root er p \<noteq> None) ixs)"
proof -
  have "index (the (failing_element h key root er p)) = fst p"
    if "failing_element h key root er p \<noteq> None" for p
  proof -
    obtain i x where p: "p = (i, x)" by (cases p)
    from that obtain e where e: "failing_element h key root er (i, x) = Some e" using p by auto
    then have "index e = i" by (auto simp: failing_element_Some)
    then show ?thesis using p e by simp
  qed
  then show ?thesis by (simp add: List.map_filter_def)
qed

lemma sorted_failing_elements:
  "sorted_wrt (<) (map index (List.map_filter (failing_element h key root er) (enumerate n xs)))"
proof -
  have "sorted_wrt (<) (map fst (enumerate n xs))" by simp
  then have "sorted_wrt (\<lambda>p q. fst p < fst q) (enumerate n xs)"
    by (simp only: sorted_wrt_map)
  then have "sorted_wrt (\<lambda>p q. fst p < fst q)
      (filter (\<lambda>p. failing_element h key root er p \<noteq> None) (enumerate n xs))"
    by (rule sorted_wrt_filter)
  then show ?thesis by (simp only: index_failing_elements sorted_wrt_map)
qed

lemma validateArrayField_nullish:
  "nullish rule \<Longrightarrow> \<not> nullish_data object \<Longrightarrow>
   validateArrayField h key object root rule = ([], Inl TypeError)"
  by (subst validateArrayField.simps; cases rule)
     (simp_all add: Let_def throws_def get_field_returns)

lemma validateArrayField_returns_object:
  assumes "validateArrayField h key object root rule = (log, Inr res)"
  shows "\<not> nullish_data object"
proof
  assume "nullish_data object"
  then have "validateArrayField h key object root rule = throws TypeError"
    by (rule validateArrayField_nullish_object)
  with assms show False by (simp add: throws_def)
qed

lemma resolved_array_run:
  assumes run: "validateArrayField h key object root rule = (log, Inr res)"
  defines "rule' \<equiv> resolve rule (read_property h object key) root"
  shows "\<not> nullish rule' \<and> typeof rule' \<noteq> ''function''
       \<and> (\<exists>log'. validateArrayField h key object root rule' = (log', Inr res))"
proof -
  note obj = validateArrayField_returns_object [OF run]
  have ty: "typeof rule' \<noteq> ''function''" by (simp add: rule'_def typeof_resolve)
  from run validateArrayField_builder [OF obj, of h key root rule]
  have snd': "snd (validateArrayField h key object root rule') = Inr res"
    by (simp add: rule'_def)
  have "\<not> nullish rule'"
  proof
    assume "nullish rule'"
    then have "validateArrayField h key object root rule' = ([], Inl TypeError)"
      using obj by (rule validateArrayField_nullish)
    with snd' show False by simp
  qed
  moreover from snd' have "\<exists>log'. validateArrayField h key object root rule' = (log', Inr res)"
    by (cases "validateArrayField h key object root rule'") simp
  ultimately show ?thesis using ty by blast
qed

lemma element_errors_listed:
  assumes run: "validateArrayField h key object root rule = (log, Inr res)"
    and read: "get_field h object key = returns (VArr xs)"
    and er: "er = get_member (resolve rule (VArr xs) root) ''arrayElementRule''"
    and tr: "truthy er"
  shows "listed (arrayElementErrors res) =
           List.map_filter (failing_element h key root er) (enumerate 0 xs)
       \<and> (\<forall>(i, element) \<in> set (enumerate 0 xs).
             \<exists>outcome. snd (element_error_of h key root er i element) = Inr outcome)
       \<and> arrayElementErrors res \<noteq> Some []"
proof -
  let ?rule = "resolve rule (VArr xs) root"
  from read have obj: "\<not> nullish_data object" and arr: "read_property h object key = VArr xs"
    by (simp_all add: get_field_value)
  from resolved_array_run [OF run] arr obtain log' where
    nn: "\<not> nullish ?rule" and ty: "typeof ?rule \<noteq> ''function''"
    and run': "validateArrayField h key object root ?rule = (log', Inr res)"
    by auto
  from run' have "and_then (whole_array_errors h key object root (get_member ?rule ''arrayRules''))
       (\<lambda>arrayFieldErrors.
          for_each (enumerate 0 xs) arrayFieldErrors
            (\<lambda>(i, element) arrayFieldErrors.
               and_then (element_error_of h key root er i element)
                 (\<lambda>error. returns (record_element arrayFieldErrors i element error))))
      = (log', Inr res)"
    using tr by (simp add: validateArrayField_static [OF ty nn obj] arr er)
  then obtain l1 a l2 where
    whole: "whole_array_errors h key object root (get_member ?rule ''arrayRules'') = (l1, Inr a)"
    and loop: "for_each (enumerate 0 xs) a
            (\<lambda>(i, element) arrayFieldErrors.
               and_then (element_error_of h key root er i element)
                 (\<lambda>error. returns (record_element arrayFieldErrors i element error)))
      = (l2, Inr res)"
    by (rule and_then_Inr)
  have none: "arrayElementErrors a = None" using whole by (rule whole_array_errors_no_elements)
  from elements_loop [OF loop] show ?thesis by (simp add: none)
qed

text \<open>
  Claim C5. Let reading the field give the array \<open>xs\<close> and let the (resolved) rule have a
  truthy \<open>arrayElementRule\<close>. Whenever the array validator returns, the entries of
  \<open>arrayElementErrors\<close> (none when the list is absent) have strictly ascending indices;
  each entry's index is a position of \<open>xs\<close>, its \<open>attemptedValue\<close> is the element at
  that position and its \<open>errors\<close> is the error tree validating that element gave; a
  position has an entry exactly when its element did not pass; and the list is never
  present but empty.
\<close>

theorem element_errors_follow_positions:
  assumes run: "validateArrayField h key object root rule = (log, Inr res)"
    and read: "get_field h object key = returns (VArr xs)"
    and er: "er = get_member (resolve rule (VArr xs) root) ''arrayElementRule''"
    and tr: "truthy er"
  shows "sorted_wrt (<) (map index (listed (arrayElementErrors res)))
       \<and> (\<forall>e \<in> set (listed (arrayElementErrors res)).
             index e < length xs
           \<and> attemptedValue e = xs ! index e
           \<and> snd (element_error_of h key root er (index e) (xs ! index e))
                = Inr (Some (element_errors e)))
       \<and> (\<forall>i < length xs.
             (\<exists>e \<in> set (listed (arrayElementErrors res)). index e = i) \<longleftrightarrow>
             snd (element_error_of h key root er i (xs ! i)) \<noteq> Inr None)
       \<and> arrayElementErrors res \<noteq> Some []"
proof -
  let ?es = "listed (arrayElementErrors res)"
  note facts = element_errors_listed [OF run read er tr]
  from facts have es: "?es = List.map_filter (failing_element h key root er) (enumerate 0 xs)"
    by (rule conjunct1)
  from facts have ret: "\<forall>(i, element) \<in> set (enumerate 0 xs).
             \<exists>outcome. snd (element_error_of h key root er i element) = Inr outcome"
    by (rule conjunct1 [OF conjunct2])
  from facts have ne: "arrayElementErrors res \<noteq> Some []"
    by (rule conjunct2 [OF conjunct2])
  have mem: "e \<in> set ?es \<longleftrightarrow>
      (\<exists>i tree. i < length xs \<and> snd (element_error_of h key root er i (xs ! i)) = Inr (Some tree)
          \<and> e = ElementError i tree (xs ! i))" for e
  proof
    assume "e \<in> set ?es"
    then obtain i x where "(i, x) \<in> set (enumerate 0 xs)"
      and "failing_element h key root er (i, x) = Some e"
      unfolding es by (auto simp: set_map_filter)
    then show "\<exists>i tree. i < length xs \<and> snd (element_error_of h key root er i (xs ! i)) = Inr (Some tree)
          \<and> e = ElementError i tree (xs ! i)"
      by (auto simp: failing_element_Some in_set_enumerate_eq)
  next
    assume "\<exists>i tree. i < length xs \<and> snd (element_error_of h key root er i (xs ! i)) = Inr (Some tree)
          \<and> e = ElementError i tree (xs ! i)"
    then obtain i tree where i: "i < length xs"
      and "snd (element_error_of h key root er i (xs ! i)) = Inr (Some tree)"
      and "e = ElementError i tree (xs ! i)" by blast
    then have "failing_element h key root er (i, xs ! i) = Some e"
      by (simp add: failing_element_Some)
    moreover have "(i, xs ! i) \<in> set (enumerate 0 xs)" using i by (simp add: in_set_enumerate_eq)
    ultimately show "e \<in> set ?es" unfolding es by (auto simp: set_map_filter)
  qed
  have A: "sorted_wrt (<) (map index ?es)" unfolding es by (rule sorted_failing_elements)
  have B: "\<forall>e \<in> set ?es. index e < length xs \<and> attemptedValue e = xs ! index e
           \<and> snd (element_error_of h key root er (index e) (xs ! index e))
                = Inr (Some (element_errors e))"
    using mem by auto
  have C: "\<forall>i < length xs. (\<exists>e \<in> set ?es. index e = i) \<longleftrightarrow>
             snd (element_error_of h key root er i (xs ! i)) \<noteq> Inr None"
  proof (intro allI impI)
    fix i assume i: "i < length xs"
    then have "(i, xs ! i) \<in> set (enumerate 0 xs)" by (simp add: in_set_enumerate_eq)
    with ret obtain outcome where o: "snd (element_error_of h key root er i (xs ! i)) = Inr outcome"
      by blast
    show "(\<exists>e \<in> set ?es. index e = i) \<longleftrightarrow>
             snd (element_error_of h key root er i (xs ! i)) \<noteq> Inr None"
    proof (cases outcome)
      case None
      then show ?thesis using o mem by auto
    next
      case (Some tree)
      then have "ElementError i tree (xs ! i) \<in> set ?es" using o i mem by blast
      then have "\<exists>e \<in> set ?es. index e = i" by force
      then show ?thesis using o Some by simp
    qed
  qed
  show ?thesis by (intro conjI A B C ne)
qed

text \<open>A builder that resolves to an element rule requiring \<open>level\<close>; the first element passes.\<close>

definition levelRule :: jv where
  "levelRule = RObj [(''level'', RArr [RFun requiredRule])]"

theorem element_errors_follow_positions_witness:
  "validateArrayField plain_host ''prices''
     (VObj [(''prices'', VArr [VObj [(''level'', VNum 1)], VObj [], VNull])]) (VObj [])
     (RFun (\<lambda>v root. RObj [(''arrayElementRule'', levelRule)]))
   = ([Call (RuleBuilder ''prices'') (VArr [VObj [(''level'', VNum 1)], VObj [], VNull]) (VObj []),
       Call (RuleSlot ''level'' 0) (VNum 1) (VObj []),
       Call (RuleSlot ''level'' 0) VUndefined (VObj []),
       Call (RuleSlot ''level'' 0) VUndefined (VObj [])],
      Inr (ErrorOfArray None
        (Some [ElementError 1 [(''level'', Violations [RStr ''This field is required.''])] (VObj []),
               ElementError 2 [(''level'', Violations [RStr ''This field is required.''])] VNull])))
   \<and> sorted_wrt (<) [1::nat, 2]
   \<and> snd (element_error_of plain_host ''prices'' (VObj []) levelRule 0 (VObj [(''level'', VNum 1)]))
       = Inr None
   \<and> snd (element_error_of plain_host ''prices'' (VObj []) levelRule 1 (VObj [])) \<noteq> Inr None
   \<and> snd (element_error_of plain_host ''prices'' (VObj []) levelRule 2 VNull) \<noteq> Inr None"
proof -
  let ?xs = "[VObj [(''level'', VNum 1)], VObj [], VNull]"
  let ?O = "VObj [(''prices'', VArr ?xs)]"
  let ?rule = "RFun (\<lambda>v root. RObj [(''arrayElementRule'', levelRule)])"
  let ?t = "[(''level'', Violations [RStr ''This field is required.''])]"
  let ?res = "ErrorOfArray None (Some [ElementError 1 ?t (VObj []), ElementError 2 ?t VNull])"
  let ?log = "[Call (RuleBuilder ''prices'') (VArr ?xs) (VObj []),
       Call (RuleSlot ''level'' 0) (VNum 1) (VObj []),
       Call (RuleSlot ''level'' 0) VUndefined (VObj []),
       Call (RuleSlot ''level'' 0) VUndefined (VObj [])]"
  have run: "validateArrayField plain_host ''prices'' ?O (VObj []) ?rule = (?log, Inr ?res)"
    by (simp add: run_simps requiredRule_def levelRule_def index_of_key_arrayElementRule)
  have arr: "get_field plain_host ?O ''prices'' = returns (VArr ?xs)"
    by (simp add: get_field_def read_property_def)
  have er: "levelRule = get_member (resolve ?rule (VArr ?xs) (VObj [])) ''arrayElementRule''"
    by simp
  have tr: "truthy levelRule" by (simp add: levelRule_def)
  note t = element_errors_follow_positions [OF run arr er tr]
  from t have "sorted_wrt (<) (map index (listed (arrayElementErrors ?res)))"
    by (rule conjunct1)
  then have a: "sorted_wrt (<) [1::nat, 2]" by simp
  from t have "\<forall>i < length ?xs.
             (\<exists>e \<in> set (listed (arrayElementErrors ?res)). index e = i) \<longleftrightarrow>
             snd (element_error_of plain_host ''prices'' (VObj []) levelRule i (?xs ! i)) \<noteq> Inr None"
    by (rule conjunct1 [OF conjunct2 [OF conjunct2]])
  then have b: "\<forall>i < 3. i \<in> {1, 2} \<longleftrightarrow>
          snd (element_error_of plain_host ''prices'' (VObj []) levelRule i (?xs ! i)) \<noteq> Inr None"
    by (simp add: eq_commute)
  from b [rule_format, of 0]
  have b0: "snd (element_error_of plain_host ''prices'' (VObj []) levelRule 0 (VObj [(''level'', VNum 1)]))
       = Inr None" by simp
  from b [rule_format, of 1]
  have b1: "snd (element_error_of plain_host ''prices'' (VObj []) levelRule 1 (VObj [])) \<noteq> Inr None"
    by simp
  from b [rule_format, of 2]
  have b2: "snd (element_error_of plain_host ''prices'' (VObj []) levelRule 2 VNull) \<noteq> Inr None"
    by simp
  show ?thesis by (intro conjI run a b0 b1 b2)
qed

section \<open>A value that is not an array\<close>

text \<open>
  Claim C8. Let reading the field give a value that is not an array and let the rule,
  once resolved, be neither \<open>undefined\<close> nor \<open>null\<close>. Then the array validator does
  exactly what its whole-array part does: the same calls, the same throw or the same
  result, whatever \<open>arrayElementRule\<close> is. A result has no \<open>arrayElementErrors\<close>. The
  whole-array rules are applied to the value that is there: when \<open>arrayRules\<close> is a list
  of functions, \<open>arrayErrors\<close> holds their violations on that value, or is absent when
  there are none.
\<close>

theorem non_array_value_skips_elements:
  assumes "get_field h object key = returns value"
    and "elements value = None"
    and "rule' = resolve rule value root"
    and "\<not> nullish rule'"
  shows "validateArrayField h key object root rule =
           (builder_calls (RuleBuilder key) rule value root
              @ fst (whole_array_errors h key object root (get_member rule' ''arrayRules'')),
            snd (whole_array_errors h key object root (get_member rule' ''arrayRules'')))
       \<and> (\<forall>res. snd (validateArrayField h key object root rule) = Inr res \<longrightarrow>
              arrayElementErrors res = None)
       \<and> (\<forall>fs. get_member rule' ''arrayRules'' = RArr (map RFun fs) \<longrightarrow>
              snd (validateArrayField h key object root rule) =
                Inr (ErrorOfArray
                  (if filter truthy (map (\<lambda>f. f value root) fs) = [] then None
                   else Some (filter truthy (map (\<lambda>f. f value root) fs)))
                  None))"
proof -
  let ?whole = "whole_array_errors h key object root (get_member rule' ''arrayRules'')"
  from assms(1) have obj: "\<not> nullish_data object" and v: "value = read_property h object key"
    by (simp_all add: get_field_value)
  have ty: "typeof rule' \<noteq> ''function''" using assms(3) by (simp add: typeof_resolve)
  have "validateArrayField h key object root rule' = and_then ?whole returns"
    using assms(2)
    by (simp add: validateArrayField_static [OF ty assms(4) obj] returns_def [abs_def]
          v [symmetric])
  then have static: "validateArrayField h key object root rule' = ?whole"
    by (simp add: and_then_returns_right)
  have 1: "validateArrayField h key object root rule =
           (builder_calls (RuleBuilder key) rule value root @ fst ?whole, snd ?whole)"
    using validateArrayField_builder [OF obj, of h key root rule] static assms(3)
    by (simp add: v)
  have 2: "\<forall>res. snd (validateArrayField h key object root rule) = Inr res \<longrightarrow>
              arrayElementErrors res = None"
  proof (intro allI impI)
    fix res assume "snd (validateArrayField h key object root rule) = Inr res"
    then have "snd ?whole = Inr res" using 1 by simp
    then obtain l where "?whole = (l, Inr res)" by (cases ?whole) simp
    then show "arrayElementErrors res = None" by (rule whole_array_errors_no_elements)
  qed
  have 3: "\<forall>fs. get_member rule' ''arrayRules'' = RArr (map RFun fs) \<longrightarrow>
              snd (validateArrayField h key object root rule) =
                Inr (ErrorOfArray
                  (if filter truthy (map (\<lambda>f. f value root) fs) = [] then None
                   else Some (filter truthy (map (\<lambda>f. f value root) fs)))
                  None)"
    using 1 by (simp add: whole_array_errors_functions [OF obj] v)
  show ?thesis by (intro conjI 1 2 3)
qed

theorem non_array_value_skips_elements_witness:
  "get_field plain_host (VObj [(''prices'', VNum 0)]) ''prices'' = returns (VNum 0)
   \<and> elements (VNum 0) = None
   \<and> validateArrayField plain_host ''prices'' (VObj [(''prices'', VNum 0)]) (VObj [])
       (RObj [(''arrayRules'', RArr [RFun requiredRule]), (''arrayElementRule'', levelRule)])
     = ([Call (RuleSlot ''prices'' 0) (VNum 0) (VObj [])],
        Inr (ErrorOfArray (Some [RStr ''This field is required.'']) None))"
proof -
  let ?O = "VObj [(''prices'', VNum 0)]"
  let ?rule = "RObj [(''arrayRules'', RArr [RFun requiredRule]), (''arrayElementRule'', levelRule)]"
  have r: "get_field plain_host ?O ''prices'' = returns (VNum 0)"
    by (simp add: get_field_def read_property_def)
  have a: "elements (VNum 0) = None" by simp
  have b: "?rule = resolve ?rule (VNum 0) (VObj [])" by simp
  have c: "\<not> nullish ?rule" by simp
  have d: "get_member ?rule ''arrayRules'' = RArr (map RFun [requiredRule])" by simp
  have obj: "\<not> nullish_data ?O" by simp
  have v: "read_property plain_host ?O ''prices'' = VNum 0" by (simp add: read_property_def)
  note t = non_array_value_skips_elements [OF r a b c]
  from t have "validateArrayField plain_host ''prices'' ?O (VObj []) ?rule =
      (builder_calls (RuleBuilder ''prices'') ?rule (VNum 0) (VObj [])
         @ fst (whole_array_errors plain_host ''prices'' ?O (VObj []) (get_member ?rule ''arrayRules'')),
       snd (whole_array_errors plain_host ''prices'' ?O (VObj []) (get_member ?rule ''arrayRules'')))"
    by (rule conjunct1)
  then have "validateArrayField plain_host ''prices'' ?O (VObj []) ?rule =
      ([Call (RuleSlot ''prices'' 0) (VNum 0) (VObj [])],
        Inr (ErrorOfArray (Some [RStr ''This field is required.'']) None))"
    unfolding d whole_array_errors_functions [OF obj] v by (simp add: requiredRule_def)
  then show ?thesis using r a by simp
qed

section \<open>How often the whole-array rules run\<close>

text \<open>A whole-array rule: the array must have an element.\<close>

definition nonEmptyRule :: "dval \<Rightarrow> dval \<Rightarrow> jv" where
  "nonEmptyRule v root =
     (case v of VArr (x # xs) \<Rightarrow> RUndefined | _ \<Rightarrow> RStr ''Must not be empty.'')"

text \<open>
  Claim C4 asks that each whole-array rule function be evaluated once per validation
  call. The loop of \<open>validateArrayField\<close> over \<open>arrayRules\<close> validates the whole
  list on every iteration, so with \<open>n\<close> rule functions each of them is called \<open>n\<close>
  times (\<open>whole_array_errors_functions\<close>). With the two rules of the example below,
  the empty array is passed to slot 0, slot 1, slot 0 and slot 1: four calls, two per
  rule. \<open>arrayErrors\<close> still holds each violation once, in list order, since every
  iteration overwrites it with the same list.
\<close>

theorem two_array_rules_are_each_called_twice:
  "validateObject plain_host (VObj [(''tags'', VArr [])]) (VObj [])
     (RObj [(''tags'', RObj [(''arrayRules'', RArr [RFun nonEmptyRule, RFun (minLengthRule 1)])])])
   = ([Call (RuleSlot ''tags'' 0) (VArr []) (VObj []),
       Call (RuleSlot ''tags'' 1) (VArr []) (VObj []),
       Call (RuleSlot ''tags'' 0) (VArr []) (VObj []),
       Call (RuleSlot ''tags'' 1) (VArr []) (VObj [])],
      Inr (Some [(''tags'',
        OfArray (ErrorOfArray (Some [RStr ''Must not be empty.'', RStr ''Too short.'']) None))]))"
  by (simp add: run_simps nonEmptyRule_def minLengthRule_def)

section \<open>The empty object as a rule\<close>

text \<open>
  Claim C10. The rule \<open>{}\<close> has no own keys, so it passes the array-rule test and is not
  a rule list: the loop body hands it to the array validator, never to the object
  validator. The array validator finds neither \<open>arrayRules\<close> nor \<open>arrayElementRule\<close>
  and returns the empty \<open>ErrorOfArray\<close>, making no call, so the field is never
  reported. This holds for every object the tree walker is given, and so for every
  value of the field; the loop body and the array validator themselves are only ever
  given an object whose fields can be read.
\<close>

theorem empty_object_rule_is_an_array_rule:
  "isArrayValidationRule (RObj []) = returns True \<and> \<not> isArray (RObj [])
   \<and> (\<not> nullish_data object \<longrightarrow>
        field_outcome h key object root (RObj []) =
          and_then (validateArrayField h key object root (RObj [])) (\<lambda>result.
          returns (if present (arrayErrors result) \<or> present (arrayElementErrors result)
                   then Some (OfArray result) else None)))
   \<and> (\<not> nullish_data object \<longrightarrow>
        validateArrayField h key object root (RObj []) = ([], Inr (ErrorOfArray None None)))
   \<and> validateObject h object root (RObj [(key, RObj [])]) = ([], Inr None)"
proof -
  have a: "isArrayValidationRule (RObj []) = returns True"
    by (simp add: isArrayValidationRule_def)
  have b: "\<not> isArray (RObj [])" by simp
  have c: "field_outcome h key object root (RObj []) =
       and_then (validateArrayField h key object root (RObj [])) (\<lambda>result.
       returns (if present (arrayErrors result) \<or> present (arrayElementErrors result)
                then Some (OfArray result) else None))" if "\<not> nullish_data object" for object
    using that a by (simp add: field_outcome_array)
  have d: "validateArrayField h key object root (RObj []) = ([], Inr (ErrorOfArray None None))"
    if "\<not> nullish_data object" for object
    by (subst validateArrayField.simps)
       (simp add: get_field_returns [OF that] returns_def split: option.splits)
  have nn: "\<not> nullish_data (if \<not> truthy_data object then VObj [] else object)"
    by (cases "truthy_data object") (simp_all add: truthy_not_nullish)
  have e: "validateObject h object root (RObj [(key, RObj [])]) = ([], Inr None)"
    unfolding validateObject_single_field c [OF nn] d [OF nn] by (simp add: returns_def)
  show ?thesis using a b c d e by blast
qed

theorem empty_object_rule_is_an_array_rule_witness:
  "validateObject plain_host (VObj [(''customer'', VObj [(''fullName'', VStr [])])]) (VObj [])
     (RObj [(''customer'', RObj [])]) = ([], Inr None)
   \<and> validateArrayField plain_host ''customer'' (VObj [(''customer'', VArr [VNull])]) (VObj [])
       (RObj [])
     = ([], Inr (ErrorOfArray None None))"
  using empty_object_rule_is_an_array_rule
          [of "VObj [(''customer'', VObj [(''fullName'', VStr [])])]" plain_host "''customer''"
              "VObj []"]
        empty_object_rule_is_an_array_rule
          [of "VObj [(''customer'', VArr [VNull])]" plain_host "''customer''" "VObj []"]
  by simp

section \<open>Rules given as builders\<close>









section \<open>Configuration errors\<close>
















section \<open>A nested rule-set against \<open>null\<close> and against \<open>undefined\<close>\<close>






end
